theory Spec2Isabelle
  imports Main "HOL-Library.Word" "HOL-Library.Sublist"
begin

unbundle bit_operations_syntax

chapter \<open>Bitwise stability of the resonance cascade: the analysis script\<close>

text \<open>
  A shallow embedding of \<^verbatim>\<open>analysis.py\<close>: the resonance term \<^verbatim>\<open>R\<close>, the cascade
  \<^verbatim>\<open>Cn\<close>, the bit codec \<^verbatim>\<open>float_to_bin64\<close>, the comparators \<^verbatim>\<open>common_bit_prefix\<close>
  and \<^verbatim>\<open>hamming_distance\<close>, and the predictor \<^verbatim>\<open>empirical_stability_law\<close>.
  A Python \<^verbatim>\<open>float\<close> is a C double: it is modelled by its 64-bit pattern. Python integers
  are \<^typ>\<open>int\<close>. An exception is a value \<open>Inl e\<close> of the result type.
\<close>

section \<open>Exceptions\<close>

text \<open>
  The built-in exceptions the script can raise: \<^verbatim>\<open>IndexError\<close> (a list index out of
  range), \<^verbatim>\<open>ZeroDivisionError\<close> (float division by zero), \<^verbatim>\<open>OverflowError\<close> (an integer
  too large for a float, the floor of an infinity), \<^verbatim>\<open>ValueError\<close> (a math domain error,
  the floor of a NaN, a failed unpacking) and \<^verbatim>\<open>struct.error\<close>.
\<close>

datatype py_error = IndexError | ZeroDivisionError | OverflowError | ValueError | StructError

section \<open>IEEE-754 binary64 values\<close>

type_synonym binary64 = "64 word"

text \<open>
  Bit 63 is the sign; the low 63 bits are the biased exponent (11 bits) followed by the
  fraction (52 bits). Read as one number, the low 63 bits order the magnitudes: below
  \<open>2047 * 2^52\<close> the value is finite, at it infinite, above it a NaN.
\<close>

definition float_sign :: "binary64 \<Rightarrow> bool" where
  "float_sign x = bit x 63"

definition float_mag :: "binary64 \<Rightarrow> nat" where
  "float_mag x = unat (take_bit 63 x)"

definition float_exponent :: "binary64 \<Rightarrow> nat" where
  "float_exponent x = float_mag x div 2 ^ 52"

definition float_fraction :: "binary64 \<Rightarrow> nat" where
  "float_fraction x = float_mag x mod 2 ^ 52"

definition inf_mag :: nat where
  "inf_mag = 2047 * 2 ^ 52"

definition is_nan :: "binary64 \<Rightarrow> bool" where
  "is_nan x = (inf_mag < float_mag x)"

definition is_inf :: "binary64 \<Rightarrow> bool" where
  "is_inf x = (float_mag x = inf_mag)"

definition is_finite :: "binary64 \<Rightarrow> bool" where
  "is_finite x = (float_mag x < inf_mag)"

definition is_zero :: "binary64 \<Rightarrow> bool" where
  "is_zero x = (float_mag x = 0)"

definition mk_float :: "bool \<Rightarrow> nat \<Rightarrow> binary64" where
  "mk_float s m = (if s then push_bit 63 1 else 0) OR take_bit 63 (word_of_nat m)"

text \<open>
  A finite value is \<open>(-1)^sign * significand * 2^scale\<close>; exponent field 0 holds the
  subnormal numbers and the zeros.
\<close>

definition significand :: "binary64 \<Rightarrow> nat" where
  "significand x = (if float_exponent x = 0 then float_fraction x else 2 ^ 52 + float_fraction x)"

definition float_scale :: "binary64 \<Rightarrow> int" where
  "float_scale x = int (max 1 (float_exponent x)) - 1075"

text \<open>The constants of the script: \<^verbatim>\<open>1.0\<close>, \<^verbatim>\<open>math.pi\<close>, and the two zeros and infinity.\<close>

definition float_one :: binary64 where
  "float_one = 0x3FF0000000000000"

definition math_pi :: binary64 where
  "math_pi = 0x400921FB54442D18"

definition pos_zero :: binary64 where
  "pos_zero = 0"

definition neg_zero :: binary64 where
  "neg_zero = 0x8000000000000000"

definition pos_inf :: binary64 where
  "pos_inf = 0x7FF0000000000000"

subsection \<open>Rounding to nearest, ties to even\<close>

fun bit_length :: "nat \<Rightarrow> nat" where
  "bit_length n = (if n = 0 then 0 else Suc (bit_length (n div 2)))"

declare bit_length.simps [simp del]

text \<open>\<open>floor_log2_ratio n d\<close> is the integer part of the binary logarithm of \<open>n / d\<close>.\<close>

definition floor_log2_ratio :: "nat \<Rightarrow> nat \<Rightarrow> int" where
  "floor_log2_ratio n d =
     (let l = int (bit_length n) - int (bit_length d)
      in if d * 2 ^ nat l \<le> n * 2 ^ nat (- l) then l else l - 1)"

definition round_half_even :: "nat \<Rightarrow> nat \<Rightarrow> nat" where
  "round_half_even n d =
     (let q = n div d; r = n mod d
      in if d < 2 * r \<or> (2 * r = d \<and> odd q) then q + 1 else q)"

text \<open>
  \<open>round_to_float s n d t\<close> is the binary64 value nearest to \<open>(-1)^s * (n / d) * 2^t\<close> for
  positive \<open>n\<close> and \<open>d\<close>: \<open>e\<close> is the exponent field of the result before the rounding
  carry, \<open>q\<close> the rounded significand at that exponent. Adding \<open>q\<close> to \<open>(e - 1) * 2^52\<close>
  carries into the exponent when \<open>q\<close> reaches \<open>2^53\<close> and leaves exponent field 0 for a
  subnormal result; a result past the largest finite value is the infinity.
\<close>

definition round_to_float :: "bool \<Rightarrow> nat \<Rightarrow> nat \<Rightarrow> int \<Rightarrow> binary64" where
  "round_to_float s n d t =
     (let e = max 1 (t + floor_log2_ratio n d + 1023);
          k = t + 1075 - e;
          q = round_half_even (n * 2 ^ nat k) (d * 2 ^ nat (- k));
          m = nat (e - 1) * 2 ^ 52 + q
      in if inf_mag \<le> m then mk_float s inf_mag else mk_float s m)"

subsection \<open>The platform: the C library and the NaN an operation produces\<close>

text \<open>
  The C library's \<^verbatim>\<open>sin\<close>, \<^verbatim>\<open>cos\<close> and \<^verbatim>\<open>log2\<close> are not correctly rounded and differ
  between platforms, as do the sign and payload of a NaN result. They are parameters of
  the model; every theorem below holds for each platform. \<^verbatim>\<open>math.sin\<close> and \<^verbatim>\<open>math.cos\<close>
  raise only at an infinite argument; the script applies them to \<^verbatim>\<open>math.pi / p\<close> for a
  nonzero integer \<^verbatim>\<open>p\<close>, of magnitude at most \<open>\<pi>\<close>, so they are taken as total.
\<close>

record platform =
  sin_d :: "binary64 \<Rightarrow> binary64"
  cos_d :: "binary64 \<Rightarrow> binary64"
  log2_d :: "binary64 \<Rightarrow> binary64"
  nan_d :: "binary64 \<Rightarrow> binary64 \<Rightarrow> binary64"

definition nan_result :: "platform \<Rightarrow> binary64 \<Rightarrow> binary64 \<Rightarrow> binary64" where
  "nan_result pf a b = nan_d pf a b OR 0x7FF8000000000000"

subsection \<open>Python's float arithmetic\<close>

text \<open>\<^verbatim>\<open>a * b\<close> on floats: the IEEE-754 product; it never raises.\<close>

definition float_mul :: "platform \<Rightarrow> binary64 \<Rightarrow> binary64 \<Rightarrow> binary64" where
  "float_mul pf a b =
     (let s = (float_sign a \<noteq> float_sign b)
      in if is_nan a \<or> is_nan b then nan_result pf a b
         else if is_inf a \<or> is_inf b then
           (if is_zero a \<or> is_zero b then nan_result pf a b else mk_float s inf_mag)
         else if is_zero a \<or> is_zero b then mk_float s 0
         else round_to_float s (significand a * significand b) 1 (float_scale a + float_scale b))"

definition ieee_div :: "platform \<Rightarrow> binary64 \<Rightarrow> binary64 \<Rightarrow> binary64" where
  "ieee_div pf a b =
     (let s = (float_sign a \<noteq> float_sign b)
      in if is_nan a \<or> is_nan b then nan_result pf a b
         else if is_inf a then (if is_inf b then nan_result pf a b else mk_float s inf_mag)
         else if is_inf b then mk_float s 0
         else if is_zero b then (if is_zero a then nan_result pf a b else mk_float s inf_mag)
         else if is_zero a then mk_float s 0
         else round_to_float s (significand a) (significand b) (float_scale a - float_scale b))"

text \<open>\<^verbatim>\<open>a / b\<close> on floats: a zero divisor raises, anything else is the IEEE-754 quotient.\<close>

definition float_truediv :: "platform \<Rightarrow> binary64 \<Rightarrow> binary64 \<Rightarrow> py_error + binary64" where
  "float_truediv pf a b = (if is_zero b then Inl ZeroDivisionError else Inr (ieee_div pf a b))"

text \<open>
  An \<^verbatim>\<open>int\<close> operand of a float operation is converted first, correctly rounded; an
  integer that rounds to \<open>2^1024\<close> or beyond raises \<^verbatim>\<open>OverflowError\<close>.
\<close>

definition float_of_int :: "int \<Rightarrow> binary64" where
  "float_of_int i = (if i = 0 then 0 else round_to_float (i < 0) (nat \<bar>i\<bar>) 1 0)"

definition int_to_float :: "int \<Rightarrow> py_error + binary64" where
  "int_to_float i =
     (if 2 ^ 1024 - 2 ^ 970 \<le> \<bar>i\<bar> then Inl OverflowError else Inr (float_of_int i))"

definition float_truediv_int :: "platform \<Rightarrow> binary64 \<Rightarrow> int \<Rightarrow> py_error + binary64" where
  "float_truediv_int pf a i =
     (case int_to_float i of Inl e \<Rightarrow> Inl e | Inr b \<Rightarrow> float_truediv pf a b)"

definition int_truediv_float :: "platform \<Rightarrow> int \<Rightarrow> binary64 \<Rightarrow> py_error + binary64" where
  "int_truediv_float pf i b =
     (case int_to_float i of Inl e \<Rightarrow> Inl e | Inr a \<Rightarrow> float_truediv pf a b)"

text \<open>
  \<^verbatim>\<open>math.floor(x)\<close>: the exact integer part of a finite float; an infinity and a NaN
  raise.
\<close>

definition float_floor :: "binary64 \<Rightarrow> int" where
  "float_floor x =
     (let m = (if float_sign x then - int (significand x) else int (significand x))
      in if 0 \<le> float_scale x then m * 2 ^ nat (float_scale x)
         else m div 2 ^ nat (- float_scale x))"

definition math_floor :: "binary64 \<Rightarrow> py_error + int" where
  "math_floor x =
     (if is_nan x then Inl ValueError
      else if is_inf x then Inl OverflowError
      else Inr (float_floor x))"

text \<open>
  \<^verbatim>\<open>math.log2(x)\<close>: a NaN and the positive infinity are returned as they are; a zero,
  a negative number and the negative infinity raise \<^verbatim>\<open>ValueError\<close> (math domain error);
  a positive finite number goes to the C library.
\<close>

definition math_log2 :: "platform \<Rightarrow> binary64 \<Rightarrow> py_error + binary64" where
  "math_log2 pf x =
     (if is_nan x then Inr x
      else if is_inf x then (if float_sign x then Inl ValueError else Inr x)
      else if is_zero x then Inl ValueError
      else if float_sign x then Inl ValueError
      else Inr (log2_d pf x))"

section \<open>The resonance term and the cascade\<close>

text \<open>
  \<^verbatim>\<open>def R(z, p):
    return math.sin(math.pi / p) * math.cos(math.pi / (2 * p)) * math.sin(math.pi / p)\<close>

  The operands are evaluated from left to right; the product associates to the left.
\<close>

definition R :: "platform \<Rightarrow> binary64 \<Rightarrow> int \<Rightarrow> py_error + binary64" where
  "R pf z p =
     (case float_truediv_int pf math_pi p of Inl e \<Rightarrow> Inl e | Inr a1 \<Rightarrow>
      case float_truediv_int pf math_pi (2 * p) of Inl e \<Rightarrow> Inl e | Inr a2 \<Rightarrow>
      case float_truediv_int pf math_pi p of Inl e \<Rightarrow> Inl e | Inr a3 \<Rightarrow>
        Inr (float_mul pf (float_mul pf (sin_d pf a1) (cos_d pf a2)) (sin_d pf a3)))"

text \<open>
  \<^verbatim>\<open>sympy.primerange(a, b)\<close> yields the primes of the half-open interval from \<^verbatim>\<open>a\<close> to
  \<^verbatim>\<open>b\<close> in ascending order.
\<close>

definition isprime :: "int \<Rightarrow> bool" where
  "isprime n = (2 \<le> n \<and> list_all (\<lambda>d. n mod d \<noteq> 0) [2..n - 1])"

definition primerange :: "int \<Rightarrow> int \<Rightarrow> int list" where
  "primerange a b = filter isprime [a..b - 1]"

text \<open>\<^verbatim>\<open>xs[i]\<close>: a negative index counts from the end; out of range raises.\<close>

definition getitem :: "'a list \<Rightarrow> int \<Rightarrow> py_error + 'a" where
  "getitem xs i =
     (if 0 \<le> i \<and> i < int (length xs) then Inr (xs ! nat i)
      else if i < 0 \<and> - int (length xs) \<le> i then Inr (xs ! nat (int (length xs) + i))
      else Inl IndexError)"

text \<open>\<^verbatim>\<open>range(n)\<close>: the integers from 0 up to \<^verbatim>\<open>n - 1\<close>, none when \<^verbatim>\<open>n\<close> is not positive.\<close>

definition py_range :: "int \<Rightarrow> int list" where
  "py_range n = map int [0..<nat n]"

text \<open>
  \<^verbatim>\<open>def Cn(z, n):
    primes = list(primerange(2, 2 + 10000))
    product = 1.0
    for i in range(n):
        product *= R(z, primes[i])
    return product\<close>

  \<open>Cn_loop\<close> is the \<^verbatim>\<open>for\<close> loop over the indices still to visit, with the running
  product as its state.
\<close>

fun Cn_loop :: "platform \<Rightarrow> binary64 \<Rightarrow> int list \<Rightarrow> int list \<Rightarrow> binary64 \<Rightarrow> py_error + binary64" where
  "Cn_loop pf z primes [] product = Inr product"
| "Cn_loop pf z primes (i # rest) product =
     (case getitem primes i of Inl e \<Rightarrow> Inl e | Inr p \<Rightarrow>
      case R pf z p of Inl e \<Rightarrow> Inl e | Inr r \<Rightarrow>
        Cn_loop pf z primes rest (float_mul pf product r))"

definition Cn :: "platform \<Rightarrow> binary64 \<Rightarrow> int \<Rightarrow> py_error + binary64" where
  "Cn pf z n =
     (let primes = primerange 2 (2 + 10000);
          product = float_one
      in Cn_loop pf z primes (py_range n) product)"

section \<open>The bit codec\<close>

text \<open>
  \<^verbatim>\<open>struct.pack(">d", x)\<close>: the eight bytes of the double, most significant first.
\<close>

fun be_bytes :: "nat \<Rightarrow> binary64 \<Rightarrow> 8 word list" where
  "be_bytes 0 x = []"
| "be_bytes (Suc k) x = be_bytes k (drop_bit 8 x) @ [ucast x]"

definition struct_pack_d :: "binary64 \<Rightarrow> 8 word list" where
  "struct_pack_d x = be_bytes 8 x"

text \<open>
  \<^verbatim>\<open>struct.unpack(">Q", buf)\<close>: a buffer of eight bytes read as one unsigned integer,
  most significant byte first, returned as a 1-tuple; any other buffer size raises
  \<^verbatim>\<open>struct.error\<close>.
\<close>

definition struct_unpack_Q :: "8 word list \<Rightarrow> py_error + int list" where
  "struct_unpack_Q buf =
     (if length buf \<noteq> 8 then Inl StructError
      else Inr [foldl (\<lambda>acc b. acc * 256 + uint b) 0 buf])"

text \<open>
  \<^verbatim>\<open>f"{d:064b}"\<close>: the binary digits of \<^verbatim>\<open>d\<close>, padded with zeros on the left, after
  the sign, to a width of at least 64.
\<close>

definition bit_char :: "bool \<Rightarrow> char" where
  "bit_char b = (if b then CHR ''1'' else CHR ''0'')"

fun bin_digits :: "nat \<Rightarrow> string" where
  "bin_digits n = (if n < 2 then [bit_char (n = 1)] else bin_digits (n div 2) @ [bit_char (odd n)])"

declare bin_digits.simps [simp del]

definition format_064b :: "int \<Rightarrow> string" where
  "format_064b d =
     (let sign = (if d < 0 then [CHR ''-''] else []);
          digits = bin_digits (nat \<bar>d\<bar>)
      in sign @ replicate (64 - length sign - length digits) CHR ''0'' @ digits)"

text \<open>
  \<^verbatim>\<open>def float_to_bin64(x):
    [d] = struct.unpack(">Q", struct.pack(">d", x))
    return f"{d:064b}"\<close>

  The target \<^verbatim>\<open>[d]\<close> takes a sequence of exactly one element.
\<close>

definition float_to_bin64 :: "binary64 \<Rightarrow> py_error + string" where
  "float_to_bin64 x =
     (case struct_unpack_Q (struct_pack_d x) of Inl e \<Rightarrow> Inl e
      | Inr t \<Rightarrow> (case t of [d] \<Rightarrow> Inr (format_064b d) | _ \<Rightarrow> Inl ValueError))"

section \<open>The bit comparators\<close>

text \<open>A list comprehension whose element expression may raise.\<close>

fun map_result :: "('a \<Rightarrow> py_error + 'b) \<Rightarrow> 'a list \<Rightarrow> py_error + 'b list" where
  "map_result f [] = Inr []"
| "map_result f (x # xs) =
     (case f x of Inl e \<Rightarrow> Inl e | Inr y \<Rightarrow>
      case map_result f xs of Inl e \<Rightarrow> Inl e | Inr ys \<Rightarrow> Inr (y # ys))"

text \<open>
  \<^verbatim>\<open>zip(*bins)\<close>: the tuples of first elements, of second elements, and so on, until
  one sequence is exhausted; no tuple at all when there is no sequence.
\<close>

function py_zip :: "'a list list \<Rightarrow> 'a list list" where
  "py_zip xss =
     (if xss = [] \<or> [] \<in> set xss then [] else map hd xss # py_zip (map tl xss))"
  by pat_completeness auto
termination
  by (relation "measure (\<lambda>xss. length (hd xss))") (auto simp add: hd_map neq_Nil_conv)

declare py_zip.simps [simp del]

text \<open>
  \<^verbatim>\<open>def common_bit_prefix(xs):
    bins = [float_to_bin64(x) for x in xs]
    prefix_len = 0
    for bits in zip(*bins):
        if all(b == bits[0] for b in bits):
            prefix_len += 1
        else:
            break
    return prefix_len\<close>

  \<open>prefix_loop\<close> is the \<^verbatim>\<open>for\<close> loop over the tuples still to visit; \<^verbatim>\<open>break\<close> returns
  the count reached. \<^verbatim>\<open>bits[0]\<close> is read only when \<^verbatim>\<open>bits\<close> has an element.
\<close>

fun prefix_loop :: "char list list \<Rightarrow> nat \<Rightarrow> nat" where
  "prefix_loop [] prefix_len = prefix_len"
| "prefix_loop (bits # rest) prefix_len =
     (if list_all (\<lambda>b. b = bits ! 0) bits then prefix_loop rest (prefix_len + 1)
      else prefix_len)"

definition common_bit_prefix :: "binary64 list \<Rightarrow> py_error + nat" where
  "common_bit_prefix xs =
     (case map_result float_to_bin64 xs of Inl e \<Rightarrow> Inl e
      | Inr bins \<Rightarrow> Inr (prefix_loop (py_zip bins) 0))"

text \<open>
  \<^verbatim>\<open>def hamming_distance(x, y):
    bx = float_to_bin64(x)
    by = float_to_bin64(y)
    return sum(b1 != b2 for b1, b2 in zip(bx, by))\<close>
\<close>

definition hamming_distance :: "binary64 \<Rightarrow> binary64 \<Rightarrow> py_error + nat" where
  "hamming_distance x y =
     (case float_to_bin64 x of Inl e \<Rightarrow> Inl e | Inr bx \<Rightarrow>
      case float_to_bin64 y of Inl e \<Rightarrow> Inl e | Inr by \<Rightarrow>
        Inr (sum_list (map (\<lambda>(b1, b2). if b1 \<noteq> b2 then 1 else 0) (zip bx by))))"

section \<open>The stability predictor\<close>

text \<open>
  \<^verbatim>\<open>def empirical_stability_law(epsilon):
    if epsilon == 0:
        return 64
    return 64 - int(math.floor(math.log2(1/epsilon)))\<close>

  \<^verbatim>\<open>epsilon == 0\<close> holds at both zeros and at no other float; \<^verbatim>\<open>math.floor\<close> returns an
  \<^verbatim>\<open>int\<close>, which \<^verbatim>\<open>int\<close> returns as it is.
\<close>

definition empirical_stability_law :: "platform \<Rightarrow> binary64 \<Rightarrow> py_error + int" where
  "empirical_stability_law pf epsilon =
     (if is_zero epsilon then Inr 64
      else
        case int_truediv_float pf 1 epsilon of Inl e \<Rightarrow> Inl e | Inr q \<Rightarrow>
        case math_log2 pf q of Inl e \<Rightarrow> Inl e | Inr l \<Rightarrow>
        case math_floor l of Inl e \<Rightarrow> Inl e | Inr k \<Rightarrow>
          Inr (64 - k))"

section \<open>The specification's terms\<close>

text \<open>
  The resonance term as the specification writes it,
  \<open>sin(\<pi>/p) * cos(\<pi>/(2p)) * sin(\<pi>/p)\<close> in double precision, and the cascade product
  over a list of primes, accumulated from the left starting at \<^verbatim>\<open>1.0\<close>.
\<close>

definition ResonanceTerm :: "platform \<Rightarrow> int \<Rightarrow> binary64" where
  "ResonanceTerm pf p =
     (let s = sin_d pf (ieee_div pf math_pi (float_of_int p));
          c = cos_d pf (ieee_div pf math_pi (float_of_int (2 * p)))
      in float_mul pf (float_mul pf s c) s)"

definition CascadeProduct :: "platform \<Rightarrow> int list \<Rightarrow> binary64" where
  "CascadeProduct pf ps =
     foldl (\<lambda>product p. float_mul pf product (ResonanceTerm pf p)) float_one ps"

text \<open>The big-endian binary numeral of \<open>n\<close> on \<open>k\<close> digits.\<close>

definition bits_msb :: "nat \<Rightarrow> nat \<Rightarrow> string" where
  "bits_msb k n = map (\<lambda>i. bit_char (bit n (k - 1 - i))) [0..<k]"

text \<open>\<^verbatim>\<open>x < 0\<close> and \<^verbatim>\<open>0 < x < inf\<close> for a float \<^verbatim>\<open>x\<close>.\<close>

definition float_negative :: "binary64 \<Rightarrow> bool" where
  "float_negative x = (float_sign x \<and> \<not> is_nan x \<and> \<not> is_zero x)"

definition float_positive_finite :: "binary64 \<Rightarrow> bool" where
  "float_positive_finite x = (\<not> float_sign x \<and> is_finite x \<and> \<not> is_zero x)"

section \<open>A platform for evaluating examples\<close>

text \<open>
  The theorems hold for every platform; the examples are evaluated on this one, whose
  \<open>sin\<close> is the identity and whose \<open>cos\<close> is constant (the small-angle approximations),
  and whose \<open>log2\<close> is the unbiased exponent field, exact at the normal powers of two.
\<close>

definition sample_platform :: platform where
  "sample_platform =
     \<lparr>sin_d = (\<lambda>x. x),
      cos_d = (\<lambda>x. float_one),
      log2_d = (\<lambda>x. float_of_int (int (float_exponent x) - 1023)),
      nan_d = (\<lambda>a b. 0)\<rparr>"

section \<open>Facts about the float model\<close>

lemma float_sign_mk_float: "float_sign (mk_float s m) = s"
  by (simp add: float_sign_def mk_float_def bit_simps)

lemma float_mag_mk_float: "float_mag (mk_float s m) = m mod 2 ^ 63"
proof -
  have "take_bit 63 (push_bit 63 1 :: 64 word) = 0"
    by simp
  then have "take_bit 63 (mk_float s m) = take_bit 63 (word_of_nat m :: 64 word)"
    by (simp add: mk_float_def take_bit_or del: push_bit_of_1)
  then have "float_mag (mk_float s m) = unat (take_bit 63 (word_of_nat m :: 64 word))"
    by (simp only: float_mag_def)
  also have "\<dots> = take_bit 63 (take_bit 64 m)"
    by (simp only: unsigned_take_bit_eq unsigned_of_nat) simp
  also have "\<dots> = take_bit 63 m"
    by (simp only: take_bit_take_bit min_def) simp
  also have "\<dots> = m mod 2 ^ 63"
    by (simp only: take_bit_eq_mod)
  finally show ?thesis .
qed

lemma bit_length_pos: "0 < n \<Longrightarrow> 0 < bit_length n"
  by (subst bit_length.simps) simp

lemma bit_length_1: "bit_length (Suc 0) = 1"
  by (simp add: bit_length.simps)

lemma floor_log2_ratio_int: "0 < n \<Longrightarrow> - 1 \<le> floor_log2_ratio n (Suc 0)"
  using bit_length_pos [of n] by (simp add: floor_log2_ratio_def Let_def bit_length_1)

lemma round_to_float_mag:
  "float_mag (round_to_float s n d t) =
     (let e = max 1 (t + floor_log2_ratio n d + 1023);
          k = t + 1075 - e;
          q = round_half_even (n * 2 ^ nat k) (d * 2 ^ nat (- k));
          m = nat (e - 1) * 2 ^ 52 + q
      in if inf_mag \<le> m then inf_mag else m)"
  by (simp add: round_to_float_def Let_def float_mag_mk_float inf_mag_def)

lemma round_to_float_sign: "float_sign (round_to_float s n d t) = s"
  by (simp add: round_to_float_def Let_def float_sign_mk_float)

lemma round_to_float_not_nan: "\<not> is_nan (round_to_float s n d t)"
  by (simp add: is_nan_def round_to_float_mag Let_def)

lemma float_of_int_nonzero: "i \<noteq> 0 \<Longrightarrow> \<not> is_zero (float_of_int i)"
proof -
  assume "i \<noteq> 0"
  then have n: "0 < nat \<bar>i\<bar>" by simp
  define l where "l = floor_log2_ratio (nat \<bar>i\<bar>) 1"
  have l: "- 1 \<le> l"
    using floor_log2_ratio_int [OF n] by (simp add: l_def)
  have "0 < float_mag (round_to_float (i < 0) (nat \<bar>i\<bar>) 1 0)"
    unfolding round_to_float_mag Let_def l_def [symmetric] inf_mag_def using l by auto
  with \<open>i \<noteq> 0\<close> show ?thesis
    by (simp add: float_of_int_def is_zero_def)
qed

section \<open>The cascade\<close>

lemma getitem_nat: "getitem xs (int i) = (if i < length xs then Inr (xs ! i) else Inl IndexError)"
  by (simp add: getitem_def)

lemma float_truediv_int_ok:
  assumes "i \<noteq> 0" and "\<bar>i\<bar> < 2 ^ 1000"
  shows "float_truediv_int pf a i = Inr (ieee_div pf a (float_of_int i))"
proof -
  have "(2::int) ^ 1000 \<le> 2 ^ 1024 - 2 ^ 970" by simp
  with assms(2) have "int_to_float i = Inr (float_of_int i)"
    by (simp add: int_to_float_def)
  then show ?thesis
    using float_of_int_nonzero [OF assms(1)] by (simp add: float_truediv_int_def float_truediv_def)
qed

lemma R_value:
  assumes "0 < p" and "p < 2 ^ 999"
  shows "R pf z p = Inr (ResonanceTerm pf p)"
proof -
  from assms have "\<bar>p\<bar> < 2 ^ 1000" "\<bar>2 * p\<bar> < 2 ^ 1000" "p \<noteq> 0" "2 * p \<noteq> 0" by simp_all
  then show ?thesis
    by (simp add: R_def ResonanceTerm_def float_truediv_int_ok Let_def)
qed

text \<open>\<open>isprime\<close> is primality: no divisor strictly between 1 and the number.\<close>

lemma isprime_iff: "isprime n \<longleftrightarrow> 2 \<le> n \<and> (\<forall>d. 2 \<le> d \<and> d < n \<longrightarrow> \<not> d dvd n)"
  by (auto simp add: isprime_def list_all_iff dvd_eq_mod_eq_0)

lemma set_primerange: "set (primerange a b) = {p. isprime p \<and> a \<le> p \<and> p < b}"
  by (auto simp add: primerange_def)

lemma sorted_primerange: "sorted_wrt (<) (primerange a b)"
  by (simp add: primerange_def sorted_wrt_filter sorted_wrt_upto)

lemma length_primerange: "int (length (primerange a b)) \<le> max 0 (b - a)"
proof -
  have "length (primerange a b) \<le> length [a..b - 1]"
    unfolding primerange_def by (rule length_filter_le)
  then show ?thesis by simp
qed

lemma primes_pool_small: "p \<in> set (primerange 2 (2 + 10000)) \<Longrightarrow> 0 < p \<and> p < 2 ^ 999"
proof -
  assume "p \<in> set (primerange 2 (2 + 10000))"
  then have "2 \<le> p" "p < 10002" by (simp_all add: set_primerange)
  moreover have "(10002::int) < 2 ^ 999" by simp
  ultimately show ?thesis by linarith
qed

lemma Cn_loop_append:
  "Cn_loop pf z ps (is @ js) product =
     (case Cn_loop pf z ps is product of Inl e \<Rightarrow> Inl e | Inr a \<Rightarrow> Cn_loop pf z ps js a)"
  by (induction "is" arbitrary: product) (auto split: sum.splits)

lemma Cn_loop_prefix:
  assumes "\<forall>p \<in> set ps. 0 < p \<and> p < 2 ^ 999" and "k \<le> length ps"
  shows "Cn_loop pf z ps (map int [0..<k]) product =
           Inr (foldl (\<lambda>a p. float_mul pf a (ResonanceTerm pf p)) product (take k ps))"
  using assms(2)
proof (induction k)
  case 0
  show ?case by simp
next
  case (Suc k)
  then have k: "k < length ps" by simp
  with assms(1) have "R pf z (ps ! k) = Inr (ResonanceTerm pf (ps ! k))"
    by (intro R_value) (simp_all add: nth_mem)
  with Suc k show ?case
    by (simp add: Cn_loop_append getitem_nat take_Suc_conv_app_nth)
qed

lemma R_z: "R pf z1 p = R pf z2 p"
  by (simp add: R_def)

lemma Cn_loop_z: "Cn_loop pf z1 ps is product = Cn_loop pf z2 ps is product"
proof (induction "is" arbitrary: product)
  case Nil
  show ?case by simp
next
  case (Cons i rest)
  show ?case
    by (simp add: Cons.IH R_z [of pf z1 _ z2] split: sum.splits)
qed

lemma primerange_step: "a < b \<Longrightarrow> primerange a b = (if isprime a then [a] else []) @ primerange (a + 1) b"
proof -
  assume "a < b"
  then have "[a..b - 1] = a # [a + 1..b - 1]"
    by (simp add: upto_rec1)
  then show ?thesis
    by (simp add: primerange_def)
qed

lemma isprime_2: "isprime 2"
  by (simp add: isprime_def)

lemma isprime_3: "isprime 3"
  by (simp add: isprime_def)

lemma primes_pool_head: "primerange 2 10002 = 2 # 3 # primerange 4 10002"
proof -
  have "primerange 2 10002 = (if isprime 2 then [2] else []) @ primerange (2 + 1) 10002"
    by (rule primerange_step) simp
  also have "primerange (2 + 1) 10002 =
      (if isprime (2 + 1) then [2 + 1] else []) @ primerange (2 + 1 + 1) 10002"
    by (rule primerange_step) simp
  finally show ?thesis
    by (simp add: isprime_2 isprime_3)
qed

lemma first_primes_complete:
  assumes "isprime q" and "p \<in> set (take k (primerange a b))" and "q < p" and "a \<le> 2"
  shows "q \<in> set (take k (primerange a b))"
proof -
  define ps where "ps = primerange a b"
  from assms(2) obtain i where i: "i < k" "i < length ps" "p = ps ! i"
    by (auto simp add: in_set_conv_nth ps_def)
  then have "p \<in> set ps" by simp
  then have "p < b" by (simp add: ps_def set_primerange)
  with assms(1,3,4) have "q \<in> set ps"
    by (simp add: ps_def set_primerange isprime_def)
  then obtain j where j: "j < length ps" "q = ps ! j"
    by (auto simp add: in_set_conv_nth)
  have sorted: "sorted_wrt (<) ps"
    by (simp add: ps_def sorted_primerange)
  have "j < i"
  proof (rule ccontr)
    assume "\<not> j < i"
    then have "i = j \<or> i < j" by auto
    then have "p \<le> q"
      using sorted_wrt_nth_less [OF sorted, of i j] i j by auto
    with assms(3) show False by simp
  qed
  with i j have "j < length (take k ps)" "take k ps ! j = q" by simp_all
  then show ?thesis
    unfolding ps_def [symmetric] by (metis nth_mem)
qed


section \<open>Claims about the cascade\<close>

text \<open>
  C1. For every \<open>z\<close> and every cascade length \<open>n\<close> from 1 up to the size of the prime
  pool, \<^verbatim>\<open>Cn(z, n)\<close> returns the product, accumulated from the left in double precision
  starting at \<^verbatim>\<open>1.0\<close>, of the resonance terms \<open>sin(\<pi>/p) * cos(\<pi>/(2p)) * sin(\<pi>/p)\<close>
  over the first \<open>n\<close> primes in ascending order; each of these terms is what \<^verbatim>\<open>R(z, p)\<close>
  returns. The list the product runs over has length \<open>n\<close>, is strictly ascending,
  holds primes only and skips no prime below one of its elements.
\<close>

theorem Cn_cascade_product:
  assumes "1 \<le> n" and "n \<le> int (length (primerange 2 (2 + 10000)))"
  shows "Cn pf z n = Inr (CascadeProduct pf (take (nat n) (primerange 2 (2 + 10000)))) \<and>
         (\<forall>p \<in> set (take (nat n) (primerange 2 (2 + 10000))). R pf z p = Inr (ResonanceTerm pf p)) \<and>
         length (take (nat n) (primerange 2 (2 + 10000))) = nat n \<and>
         sorted_wrt (<) (take (nat n) (primerange 2 (2 + 10000))) \<and>
         (\<forall>p \<in> set (take (nat n) (primerange 2 (2 + 10000))). isprime p) \<and>
         (\<forall>q. isprime q \<and> (\<exists>p \<in> set (take (nat n) (primerange 2 (2 + 10000))). q < p)
              \<longrightarrow> q \<in> set (take (nat n) (primerange 2 (2 + 10000))))"
proof -
  define ps where "ps = primerange 2 (2 + 10000)"
  have small: "\<forall>p \<in> set ps. 0 < p \<and> p < 2 ^ 999"
    using primes_pool_small by (simp add: ps_def)
  from assms(2) have k: "nat n \<le> length ps" by (simp add: ps_def)
  have "Cn pf z n = Inr (CascadeProduct pf (take (nat n) ps))"
    using Cn_loop_prefix [OF small k] by (simp add: Cn_def py_range_def CascadeProduct_def ps_def)
  moreover have "\<forall>p \<in> set (take (nat n) ps). R pf z p = Inr (ResonanceTerm pf p)"
    using small by (auto dest!: in_set_takeD intro!: R_value)
  moreover have "length (take (nat n) ps) = nat n"
    using k by simp
  moreover have "sorted_wrt (<) (take (nat n) ps)"
    by (simp add: ps_def sorted_primerange sorted_wrt_take)
  moreover have "\<forall>p \<in> set (take (nat n) ps). isprime p"
    by (auto dest!: in_set_takeD simp add: ps_def set_primerange)
  moreover have "\<forall>q. isprime q \<and> (\<exists>p \<in> set (take (nat n) ps). q < p) \<longrightarrow> q \<in> set (take (nat n) ps)"
    unfolding ps_def using first_primes_complete [of _ _ "nat n" 2 "2 + 10000"] by blast
  ultimately show ?thesis
    unfolding ps_def by blast
qed

text \<open>With \<open>n = 2\<close> the product runs over the primes 2 and 3, whatever \<open>z\<close> is (here 0.5).\<close>

theorem Cn_cascade_product_witness:
  "Cn sample_platform 0x3FE0000000000000 2 = Inr (CascadeProduct sample_platform [2, 3]) \<and>
   R sample_platform 0x3FE0000000000000 3 = Inr (ResonanceTerm sample_platform 3)"
proof -
  have h1: "(1::int) \<le> 2" by simp
  have h2: "2 \<le> int (length (primerange 2 (2 + 10000)))"
    by (simp add: primes_pool_head)
  have "take (nat 2) (primerange 2 (2 + 10000)) = [2, 3]"
    by (simp add: primes_pool_head)
  then show ?thesis
    using Cn_cascade_product [OF h1 h2, of sample_platform "0x3FE0000000000000"] by simp
qed

text \<open>
  C2. The result of \<^verbatim>\<open>R\<close> and of \<^verbatim>\<open>Cn\<close> does not depend on the first argument: for all
  \<open>z1\<close>, \<open>z2\<close>, every \<open>p\<close> and every \<open>n\<close> the two calls return the same value or raise the
  same exception.
\<close>

theorem z_independence: "R pf z1 p = R pf z2 p \<and> Cn pf z1 n = Cn pf z2 n"
  by (simp add: R_z [of pf z1 p z2] Cn_def Cn_loop_z [of pf z1 _ _ _ z2])

theorem z_independence_witness:
  "R sample_platform 0x3FE0000000000000 7 = R sample_platform 0x4000000000000000 7 \<and>
   Cn sample_platform 0x3FE0000000000000 15 = Cn sample_platform 0x4000000000000000 15"
  by (rule z_independence)

text \<open>
  C3. For every \<open>z\<close> and every \<open>n\<close> larger than the number of primes in the pool (the primes
  below 10002), \<^verbatim>\<open>Cn(z, n)\<close> fails and returns no product: the read \<^verbatim>\<open>primes[i]\<close> past the
  end of the pool raises Python's \<^verbatim>\<open>IndexError\<close>, the error the specification names
  \<^verbatim>\<open>InsufficientPrimesError\<close>.
\<close>

theorem Cn_insufficient_primes:
  assumes "int (length (primerange 2 (2 + 10000))) < n"
  shows "Cn pf z n = Inl IndexError"
proof -
  define ps where "ps = primerange 2 (2 + 10000)"
  define k where "k = length ps"
  from assms have kn: "k < nat n" by (simp add: ps_def k_def)
  then have "[0..<nat n] = [0..<k] @ k # [Suc k..<nat n]"
    by (metis less_imp_le_nat upt_add_eq_append le_add_diff_inverse upt_conv_Cons zero_le)
  then have range: "py_range n = map int [0..<k] @ int k # map int [Suc k..<nat n]"
    by (simp add: py_range_def)
  have small: "\<forall>p \<in> set ps. 0 < p \<and> p < 2 ^ 999"
    using primes_pool_small by (simp add: ps_def)
  have "Cn_loop pf z ps (py_range n) float_one = Inl IndexError"
    unfolding range Cn_loop_append Cn_loop_prefix [OF small, of k, unfolded k_def, OF le_refl, folded k_def]
    by (simp add: getitem_nat k_def)
  then show ?thesis by (simp add: Cn_def ps_def)
qed

text \<open>There are fewer than 10001 primes below 10002, so \<open>n = 10001\<close> is past the pool.\<close>

theorem Cn_insufficient_primes_witness:
  "int (length (primerange 2 (2 + 10000))) < 10001 \<and>
   Cn sample_platform 0x3FE0000000000000 10001 = Inl IndexError"
proof -
  have h: "int (length (primerange 2 (2 + 10000))) < 10001"
    using length_primerange [of 2 "2 + 10000"] by simp
  show ?thesis
    using h Cn_insufficient_primes [OF h, of sample_platform "0x3FE0000000000000"] by simp
qed

text \<open>
  C10. For every \<open>z\<close>, \<^verbatim>\<open>Cn(z, 0)\<close> does not fail and returns exactly \<^verbatim>\<open>1.0\<close>, the empty
  product.
\<close>

theorem Cn_zero: "Cn pf z 0 = Inr float_one"
  by (simp add: Cn_def py_range_def)

theorem Cn_zero_witness:
  "Cn sample_platform 0x3FE0000000000000 0 = Inr 0x3FF0000000000000"
  using Cn_zero [of sample_platform "0x3FE0000000000000"] by (simp add: float_one_def)

section \<open>The bit codec and the comparators\<close>

lemma unpack_be_bytes:
  "foldl (\<lambda>acc b. acc * 256 + uint b) 0 (be_bytes k x) = uint x mod 2 ^ (8 * k)"
proof (induction k arbitrary: x)
  case 0
  show ?case by simp
next
  case (Suc k)
  have "uint (drop_bit 8 x) = uint x div 256"
  proof -
    have "uint (drop_bit 8 x) = drop_bit 8 (take_bit 64 (uint x))"
      by (simp add: unsigned_drop_bit_eq)
    moreover have "take_bit 64 (uint x) = uint x"
      by (rule take_bit_int_eq_self) (use uint_bounded [of x] in simp_all)
    ultimately show ?thesis
      by (simp only: drop_bit_eq_div) simp
  qed
  moreover have "uint (ucast x :: 8 word) = uint x mod 256"
    by (simp add: unsigned_ucast_eq take_bit_eq_mod)
  moreover have "uint x div 256 mod 2 ^ (8 * k) * 256 + uint x mod 256 = uint x mod 2 ^ (8 * Suc k)"
  proof -
    have "(2::int) ^ (8 * Suc k) = 256 * 2 ^ (8 * k)"
      by (simp add: power_add)
    then show ?thesis
      by (simp add: zmod_zmult2_eq mult.commute)
  qed
  ultimately show ?case
    by (simp add: Suc.IH)
qed

lemma length_be_bytes: "length (be_bytes k x) = k"
  by (induction k arbitrary: x) simp_all

lemma struct_roundtrip: "struct_unpack_Q (struct_pack_d x) = Inr [uint x]"
proof -
  have "uint x < 2 ^ 64" using uint_bounded [of x] by simp
  then have "uint x mod 2 ^ (8 * 8) = uint x" by simp
  then show ?thesis
    by (simp add: struct_unpack_Q_def struct_pack_d_def length_be_bytes unpack_be_bytes)
qed

lemma length_bin_digits: "0 < k \<Longrightarrow> n < 2 ^ k \<Longrightarrow> length (bin_digits n) \<le> k"
proof (induction k arbitrary: n)
  case 0
  then show ?case by simp
next
  case (Suc k)
  show ?case
  proof (cases "n < 2")
    case True
    then show ?thesis by (subst bin_digits.simps) simp
  next
    case False
    with Suc.prems have "0 < k" by (cases k) auto
    moreover from Suc.prems have "n div 2 < 2 ^ k" by auto
    ultimately have "length (bin_digits (n div 2)) \<le> k" by (rule Suc.IH)
    with False show ?thesis by (subst bin_digits.simps) simp
  qed
qed

lemma bits_msb_Suc: "bits_msb (Suc k) n = bits_msb k (n div 2) @ [bit_char (odd n)]"
proof -
  have "bit n (k - i) = bit (n div 2) (k - 1 - i)" if "i < k" for i
    using that by (simp add: Suc_diff_Suc flip: bit_Suc)
  then show ?thesis
    by (simp add: bits_msb_def bit_0)
qed

lemma pad_bin_digits:
  "0 < k \<Longrightarrow> n < 2 ^ k \<Longrightarrow> replicate (k - length (bin_digits n)) CHR ''0'' @ bin_digits n = bits_msb k n"
proof (induction k arbitrary: n)
  case 0
  then show ?case by simp
next
  case (Suc k)
  show ?case
  proof (cases "n < 2")
    case True
    then have n: "n div 2 = 0" by simp
    have zeros: "bits_msb j 0 = replicate j CHR ''0''" for j
      by (simp add: bits_msb_def bit_char_def map_replicate_const)
    from True have "bit_char (n = 1) = bit_char (odd n)"
      by (cases "n = 0") (auto simp add: bit_char_def)
    with True show ?thesis
      by (subst (1 2) bin_digits.simps) (simp add: bits_msb_Suc n zeros)
  next
    case False
    with Suc.prems have k: "0 < k" by (cases k) auto
    from Suc.prems have half: "n div 2 < 2 ^ k" by auto
    have len: "length (bin_digits (n div 2)) \<le> k"
      using k half by (rule length_bin_digits)
    have "replicate (k - length (bin_digits (n div 2))) CHR ''0'' @ bin_digits (n div 2) = bits_msb k (n div 2)"
      using k half by (rule Suc.IH)
    with False len show ?thesis
      by (subst (1 2) bin_digits.simps) (simp add: bits_msb_Suc Suc_diff_le)
  qed
qed

lemma format_064b_uint: "format_064b (uint (x :: binary64)) = bits_msb 64 (unat x)"
proof -
  have "unat x < 2 ^ 64" using unsigned_less [of x] by simp
  then have "replicate (64 - length (bin_digits (unat x))) CHR ''0'' @ bin_digits (unat x) = bits_msb 64 (unat x)"
    by (intro pad_bin_digits) simp_all
  then show ?thesis
    by (simp add: format_064b_def Let_def)
qed

lemma float_to_bin64_bits: "float_to_bin64 x = Inr (bits_msb 64 (unat x))"
  by (simp add: float_to_bin64_def struct_roundtrip format_064b_uint)

lemma length_bits_msb: "length (bits_msb k n) = k"
  by (simp add: bits_msb_def)

lemma nth_bits_msb: "i < k \<Longrightarrow> bits_msb k n ! i = bit_char (bit n (k - 1 - i))"
  by (simp add: bits_msb_def)

lemma set_bits_msb: "set (bits_msb k n) \<subseteq> {CHR ''0'', CHR ''1''}"
  by (auto simp add: bits_msb_def bit_char_def)

lemma bits_msb_1: "bits_msb (Suc 0) n = [bit_char (odd n)]"
  by (simp add: bits_msb_def bit_0)

lemma bits_msb_add: "bits_msb (a + b) n = bits_msb a (n div 2 ^ b) @ bits_msb b (n mod 2 ^ b)"
proof (rule nth_equalityI)
  show "length (bits_msb (a + b) n) = length (bits_msb a (n div 2 ^ b) @ bits_msb b (n mod 2 ^ b))"
    by (simp add: length_bits_msb)
next
  fix i
  assume "i < length (bits_msb (a + b) n)"
  then have i: "i < a + b" by (simp add: length_bits_msb)
  show "bits_msb (a + b) n ! i = (bits_msb a (n div 2 ^ b) @ bits_msb b (n mod 2 ^ b)) ! i"
  proof (cases "i < a")
    case True
    then have "a - 1 - i + b = a + b - 1 - i" by simp
    then have "bit (n div 2 ^ b) (a - 1 - i) = bit n (a + b - 1 - i)"
      by (simp add: bit_drop_bit_eq add.commute flip: drop_bit_eq_div)
    with True i show ?thesis
      by (simp add: nth_append length_bits_msb nth_bits_msb)
  next
    case False
    with i have "b - 1 - (i - a) = a + b - 1 - i" "a + b - 1 - i < b" by simp_all
    then have "bit (n mod 2 ^ b) (b - 1 - (i - a)) = bit n (a + b - 1 - i)"
      by (simp add: bit_take_bit_iff flip: take_bit_eq_mod)
    with False i show ?thesis
      by (simp add: nth_append length_bits_msb nth_bits_msb)
  qed
qed

lemma bits_msb_layout:
  "bits_msb 64 (unat x) =
     bit_char (float_sign x) # bits_msb 11 (float_exponent x) @ bits_msb 52 (float_fraction x)"
proof -
  have mag: "float_mag x = unat x mod 2 ^ 63"
    by (simp only: float_mag_def unsigned_take_bit_eq) (simp only: take_bit_eq_mod)
  have "unat x < 2 ^ 64" using unsigned_less [of x] by simp
  then have "unat x div 2 ^ 63 < 2" by (simp add: less_mult_imp_div_less)
  have "odd (unat x div 2 ^ 63) = bit (unat x) 63"
    unfolding drop_bit_eq_div [symmetric] by (simp only: bit_iff_odd_drop_bit)
  then have sign: "bits_msb (Suc 0) (unat x div 2 ^ 63) = [bit_char (float_sign x)]"
    by (simp only: bits_msb_1 float_sign_def bit_unsigned_iff) simp
  have rest: "bits_msb 63 (float_mag x) = bits_msb 11 (float_exponent x) @ bits_msb 52 (float_fraction x)"
    using bits_msb_add [of 11 52 "float_mag x"] by (simp add: float_exponent_def float_fraction_def)
  have "bits_msb 64 (unat x) = bits_msb (Suc 0 + 63) (unat x)"
    by simp
  also have "\<dots> = bits_msb (Suc 0) (unat x div 2 ^ 63) @ bits_msb 63 (unat x mod 2 ^ 63)"
    by (rule bits_msb_add)
  also have "\<dots> = [bit_char (float_sign x)] @ bits_msb 63 (float_mag x)"
    by (simp only: sign mag)
  also have "\<dots> = [bit_char (float_sign x)] @ bits_msb 11 (float_exponent x) @ bits_msb 52 (float_fraction x)"
    by (simp only: rest)
  finally show ?thesis
    by simp
qed

lemma bit_char_inject: "bit_char a = bit_char b \<longleftrightarrow> a = b"
  by (simp add: bit_char_def)

lemma bits_msb_word_inject: "bits_msb 64 (unat (x::binary64)) = bits_msb 64 (unat y) \<longleftrightarrow> x = y"
proof
  assume eq: "bits_msb 64 (unat x) = bits_msb 64 (unat y)"
  show "x = y"
  proof (rule bit_word_eqI)
    fix j
    assume "j < LENGTH(64)"
    then have j: "63 - j < 64" "63 - (63 - j) = j" by simp_all
    from eq have "bits_msb 64 (unat x) ! (63 - j) = bits_msb 64 (unat y) ! (63 - j)" by simp
    with j show "bit x j = bit y j"
      by (simp add: nth_bits_msb bit_char_inject bit_unsigned_iff)
  qed
qed simp

lemma differing_zero:
  "length xs = length ys \<Longrightarrow>
     (sum_list (map (\<lambda>(b1, b2). if b1 \<noteq> b2 then 1 else 0) (zip xs ys)) = (0::nat)) = (xs = ys)"
  by (induction xs ys rule: list_induct2) auto

lemma differing_same:
  "sum_list (map (\<lambda>(b1, b2). if b1 \<noteq> b2 then 1 else 0) (zip xs xs)) = (0::nat)"
  by (induction xs) simp_all

lemma bits_msb_zeros: "bits_msb 64 0 = CHR ''0'' # bits_msb 63 0"
  using bits_msb_add [of 1 63 0] by (simp add: bits_msb_1 bit_char_def)

lemma bits_msb_sign_bit: "bits_msb 64 9223372036854775808 = CHR ''1'' # bits_msb 63 0"
  using bits_msb_add [of 1 63 9223372036854775808] by (simp add: bits_msb_1 bit_char_def)


lemma common_bit_prefix_Nil: "common_bit_prefix [] = Inr 0"
  by (simp add: common_bit_prefix_def py_zip.simps)

lemma hamming_signed_zeros: "hamming_distance pos_zero neg_zero = Inr 1"
  by (simp add: hamming_distance_def float_to_bin64_bits bits_msb_zeros bits_msb_sign_bit
      pos_zero_def neg_zero_def differing_same)

lemma bits_msb_11_1023: "bits_msb 11 1023 = ''01111111111''"
  by (simp add: bits_msb_def bit_char_def upt_rec bit_0)

lemma bits_msb_52_0: "bits_msb 52 0 = ''0000000000000000000000000000000000000000000000000000''"
  by (simp add: bits_msb_def bit_char_def upt_rec)

lemma float_one_fields:
  "float_sign float_one = False" "float_exponent float_one = 1023" "float_fraction float_one = 0"
  by (simp_all add: float_sign_def float_exponent_def float_fraction_def float_mag_def float_one_def)

section \<open>Claims about the codec and the comparators\<close>

text \<open>
  C8. For every binary64 value \<open>x\<close> (every 64-bit pattern: the finite numbers, the signed
  zeros, the infinities and the NaNs) \<^verbatim>\<open>float_to_bin64(x)\<close> does not fail; it returns a
  string of exactly 64 characters, each \<^verbatim>\<open>0\<close> or \<^verbatim>\<open>1\<close>, whose character \<open>i\<close> is bit
  \<open>63 - i\<close> of the pattern: the sign bit first, then the 11 exponent bits, then the 52
  fraction bits, each field most significant bit first.
\<close>

theorem float_to_bin64_encoding:
  "\<exists>s. float_to_bin64 x = Inr s \<and> length s = 64 \<and> set s \<subseteq> {CHR ''0'', CHR ''1''} \<and>
       (\<forall>i<64. s ! i = bit_char (bit x (63 - i))) \<and>
       s = bit_char (float_sign x) # bits_msb 11 (float_exponent x) @ bits_msb 52 (float_fraction x)"
proof -
  have "\<forall>i<64. bits_msb 64 (unat x) ! i = bit_char (bit x (63 - i))"
    by (simp add: nth_bits_msb bit_unsigned_iff)
  then show ?thesis
    using bits_msb_layout [of x] set_bits_msb [of 64 "unat x"]
    by (simp add: float_to_bin64_bits length_bits_msb)
qed

text \<open>The encoding of \<^verbatim>\<open>1.0\<close>: sign 0, exponent field 1023, fraction 0.\<close>

theorem float_to_bin64_encoding_witness:
  "float_to_bin64 float_one =
     Inr ''0011111111110000000000000000000000000000000000000000000000000000''"
  using float_to_bin64_encoding [of float_one]
  by (auto simp add: float_one_fields bits_msb_11_1023 bits_msb_52_0 bit_char_def)

text \<open>
  C4, as the code has it. \<^verbatim>\<open>common_bit_prefix\<close> on an empty sequence does not fail: there
  is no string to compare, \<^verbatim>\<open>zip()\<close> yields nothing, and the count returned is 0.
\<close>

theorem common_bit_prefix_empty: "common_bit_prefix [] = Inr 0"
  by (simp add: common_bit_prefix_Nil)

text \<open>As the specification states it, with the call failing, C4 does not hold of the code.\<close>

theorem common_bit_prefix_empty_returns: "\<not> isl (common_bit_prefix [])"
  by (simp add: common_bit_prefix_Nil)

text \<open>
  C5, as the code has it. \<^verbatim>\<open>hamming_distance(x, y)\<close> is 0 exactly when the encodings of
  \<open>x\<close> and \<open>y\<close> are the same string, which is exactly when \<open>x\<close> and \<open>y\<close> are the same bit
  pattern; the two zeros differ in the sign bit only, so their distance is 1.
\<close>

theorem hamming_zero_iff:
  "(hamming_distance x y = Inr 0) = (float_to_bin64 x = float_to_bin64 y) \<and>
   (float_to_bin64 x = float_to_bin64 y) = (x = y) \<and>
   hamming_distance pos_zero neg_zero = Inr 1"
proof -
  have "hamming_distance x y =
          Inr (sum_list (map (\<lambda>(b1, b2). if b1 \<noteq> b2 then 1 else 0)
                 (zip (bits_msb 64 (unat x)) (bits_msb 64 (unat y)))))"
    by (simp add: hamming_distance_def float_to_bin64_bits)
  moreover have "(sum_list (map (\<lambda>(b1, b2). if b1 \<noteq> b2 then 1 else 0)
                   (zip (bits_msb 64 (unat x)) (bits_msb 64 (unat y)))) = (0::nat)) =
                 (bits_msb 64 (unat x) = bits_msb 64 (unat y))"
    by (rule differing_zero) (simp add: length_bits_msb)
  ultimately have "(hamming_distance x y = Inr 0) = (bits_msb 64 (unat x) = bits_msb 64 (unat y))"
    by (simp only: sum.inject)
  then show ?thesis
    by (simp add: float_to_bin64_bits bits_msb_word_inject hamming_signed_zeros)
qed

theorem hamming_zero_iff_witness:
  "hamming_distance float_one float_one = Inr 0 \<and> hamming_distance float_one pos_zero \<noteq> Inr 0"
  using hamming_zero_iff [of float_one float_one] hamming_zero_iff [of float_one pos_zero]
  by (simp add: float_one_def pos_zero_def)

text \<open>As the specification states it, with a distance of 64 between the two zeros, C5 does
  not hold of the code.\<close>

theorem hamming_signed_zeros_not_64: "hamming_distance pos_zero neg_zero \<noteq> Inr 64"
  by (simp add: hamming_signed_zeros)

section \<open>The common prefix shrinks as values are added\<close>

lemma map_result_float_to_bin64:
  "map_result float_to_bin64 xs = Inr (map (\<lambda>x. bits_msb 64 (unat x)) xs)"
  by (induction xs) (simp_all add: float_to_bin64_bits)

lemma common_bit_prefix_eq:
  "common_bit_prefix xs = Inr (prefix_loop (py_zip (map (\<lambda>x. bits_msb 64 (unat x)) xs)) 0)"
  by (simp add: common_bit_prefix_def map_result_float_to_bin64)

lemma prefix_loop_ge: "a \<le> prefix_loop cols a"
proof (induction cols arbitrary: a)
  case Nil
  show ?case by simp
next
  case (Cons bits rest)
  have "a \<le> a + 1" by simp
  also have "a + 1 \<le> prefix_loop rest (a + 1)" by (rule Cons.IH)
  finally show ?case by simp
qed

lemma py_zip_exhausted: "[] \<in> set xss \<Longrightarrow> py_zip xss = []"
  by (subst py_zip.simps) simp

lemma py_zip_step:
  "xss \<noteq> [] \<Longrightarrow> [] \<notin> set xss \<Longrightarrow> py_zip xss = map hd xss # py_zip (map tl xss)"
  by (subst py_zip.simps) simp

lemma uniform_subset:
  assumes "list_all (\<lambda>b. b = bits ! 0) bits" and "set sub \<subseteq> set bits"
  shows "list_all (\<lambda>b. b = sub ! 0) sub"
proof (cases sub)
  case Nil
  then show ?thesis by simp
next
  case (Cons c rest)
  from assms have all: "\<forall>b \<in> set sub. b = bits ! 0"
    by (auto simp add: list_all_iff)
  with Cons have "sub ! 0 = bits ! 0" by simp
  with all show ?thesis by (simp add: list_all_iff)
qed

lemma prefix_loop_mono:
  assumes "\<forall>s \<in> set xss. length s = n" and "set yss \<subseteq> set xss" and "yss \<noteq> []"
  shows "prefix_loop (py_zip xss) a \<le> prefix_loop (py_zip yss) a"
  using assms
proof (induction n arbitrary: xss yss a)
  case 0
  then obtain s where "s \<in> set yss" by (cases yss) auto
  with "0.prems" have "[] \<in> set yss" "[] \<in> set xss" by auto
  then show ?case by (simp add: py_zip_exhausted)
next
  case (Suc n)
  from Suc.prems have xne: "xss \<noteq> []" by auto
  from Suc.prems have nx: "[] \<notin> set xss" by auto
  with Suc.prems have ny: "[] \<notin> set yss" by auto
  have zx: "py_zip xss = map hd xss # py_zip (map tl xss)"
    using xne nx by (rule py_zip_step)
  have zy: "py_zip yss = map hd yss # py_zip (map tl yss)"
    using Suc.prems(3) ny by (rule py_zip_step)
  show ?case
  proof (cases "list_all (\<lambda>b. b = map hd xss ! 0) (map hd xss)")
    case True
    have "set (map hd yss) \<subseteq> set (map hd xss)"
      using Suc.prems(2) by auto
    with True have uy: "list_all (\<lambda>b. b = map hd yss ! 0) (map hd yss)"
      by (rule uniform_subset)
    have "prefix_loop (py_zip (map tl xss)) (a + 1) \<le> prefix_loop (py_zip (map tl yss)) (a + 1)"
    proof (rule Suc.IH)
      show "\<forall>s \<in> set (map tl xss). length s = n"
        using Suc.prems(1) by auto
      show "set (map tl yss) \<subseteq> set (map tl xss)"
        using Suc.prems(2) by auto
      show "map tl yss \<noteq> []"
        using Suc.prems(3) by simp
    qed
    with True uy show ?thesis
      by (simp only: zx zy prefix_loop.simps if_True)
  next
    case False
    then have "prefix_loop (py_zip xss) a = a"
      by (simp only: zx prefix_loop.simps if_False)
    then show ?thesis
      by (simp add: prefix_loop_ge)
  qed
qed

lemma common_bit_prefix_mono:
  assumes "set ys \<subseteq> set xs" and "ys \<noteq> []"
  shows "prefix_loop (py_zip (map (\<lambda>x. bits_msb 64 (unat x)) xs)) 0
           \<le> prefix_loop (py_zip (map (\<lambda>x. bits_msb 64 (unat x)) ys)) 0"
proof (rule prefix_loop_mono)
  show "\<forall>s \<in> set (map (\<lambda>x. bits_msb 64 (unat x)) xs). length s = 64"
    by (auto simp add: length_bits_msb)
  show "set (map (\<lambda>x. bits_msb 64 (unat x)) ys) \<subseteq> set (map (\<lambda>x. bits_msb 64 (unat x)) xs)"
    using assms(1) by auto
  show "map (\<lambda>x. bits_msb 64 (unat x)) ys \<noteq> []"
    using assms(2) by simp
qed

lemma enc_one: "bits_msb 64 4607182418800017408 =
    ''0011111111110000000000000000000000000000000000000000000000000000''"
  by (simp add: bits_msb_def bit_char_def upt_rec bit_0)

lemma enc_two: "bits_msb 64 4611686018427387904 =
    ''0100000000000000000000000000000000000000000000000000000000000000''"
  by (simp add: bits_msb_def bit_char_def upt_rec bit_0)

lemma enc_minus_one: "bits_msb 64 13830554455654793216 =
    ''1011111111110000000000000000000000000000000000000000000000000000''"
  by (simp add: bits_msb_def bit_char_def upt_rec bit_0)

text \<open>
  C9. For every sequence \<open>xs\<close> and every non-empty subsequence \<open>ys\<close> of it,
  \<^verbatim>\<open>common_bit_prefix(xs)\<close> is at most \<^verbatim>\<open>common_bit_prefix(ys)\<close>, neither call failing; in
  particular appending any value \<open>v\<close> to \<open>xs\<close> never increases the result.
\<close>

theorem common_bit_prefix_antitone:
  assumes "ys \<noteq> []" and "subseq ys xs"
  shows "\<exists>a b. common_bit_prefix xs = Inr a \<and> common_bit_prefix ys = Inr b \<and> a \<le> b \<and>
           (\<forall>v. \<exists>c. common_bit_prefix (xs @ [v]) = Inr c \<and> c \<le> a)"
proof -
  have sub: "set ys \<subseteq> set xs"
    using list_emb_set [OF assms(2)] by auto
  with assms(1) have "xs \<noteq> []" by auto
  then have "prefix_loop (py_zip (map (\<lambda>x. bits_msb 64 (unat x)) (xs @ [v]))) 0
           \<le> prefix_loop (py_zip (map (\<lambda>x. bits_msb 64 (unat x)) xs)) 0" for v
    by (intro common_bit_prefix_mono) auto
  with common_bit_prefix_mono [OF sub assms(1)] show ?thesis
    by (simp only: common_bit_prefix_eq sum.inject) blast
qed

text \<open>
  The encodings of \<^verbatim>\<open>1.0\<close> and \<^verbatim>\<open>2.0\<close> share their first bit only; adding \<^verbatim>\<open>-1.0\<close>
  leaves no common bit.
\<close>

theorem common_bit_prefix_antitone_witness:
  "subseq [float_one, 0x4000000000000000] [float_one, 0x4000000000000000, 0xBFF0000000000000] \<and>
   common_bit_prefix [float_one, 0x4000000000000000, 0xBFF0000000000000] = Inr 0 \<and>
   common_bit_prefix [float_one, 0x4000000000000000] = Inr 1"
proof -
  have ne: "[float_one, 0x4000000000000000] \<noteq> []" by simp
  have sub: "subseq [float_one, 0x4000000000000000] [float_one, 0x4000000000000000, 0xBFF0000000000000]"
    by simp
  have "common_bit_prefix [float_one, 0x4000000000000000, 0xBFF0000000000000] = Inr 0"
    by (simp add: common_bit_prefix_eq float_one_def enc_one enc_two enc_minus_one py_zip.simps)
  moreover have "common_bit_prefix [float_one, 0x4000000000000000] = Inr 1"
    by (simp add: common_bit_prefix_eq float_one_def enc_one enc_two py_zip.simps)
  ultimately show ?thesis
    using sub common_bit_prefix_antitone [OF ne sub] by simp
qed

section \<open>Claims about the stability predictor\<close>

lemma float_one_class:
  "float_sign float_one = False" "float_mag float_one = 1023 * 2 ^ 52"
  by (simp_all add: float_sign_def float_mag_def float_one_def)

lemma float_one_finite:
  "\<not> is_nan float_one" "\<not> is_inf float_one" "\<not> is_zero float_one"
  by (simp_all add: is_nan_def is_inf_def is_zero_def float_one_class inf_mag_def)

lemma float_of_int_1: "float_of_int 1 = float_one"
  by (simp add: float_of_int_def round_to_float_def floor_log2_ratio_def bit_length.simps
      round_half_even_def Let_def inf_mag_def mk_float_def float_one_def)

lemma int_to_float_1: "int_to_float 1 = Inr float_one"
  by (simp add: int_to_float_def float_of_int_1)

lemma one_truediv:
  "\<not> is_zero b \<Longrightarrow> int_truediv_float pf 1 b = Inr (ieee_div pf float_one b)"
  by (simp add: int_truediv_float_def int_to_float_1 float_truediv_def)

lemma mk_float_zero: "is_zero (mk_float s 0)" "float_sign (mk_float s 0) = s" "\<not> is_nan (mk_float s 0)"
  by (simp_all add: is_zero_def is_nan_def float_mag_mk_float float_sign_mk_float)

lemma math_log2_negative: "float_sign x \<Longrightarrow> \<not> is_nan x \<Longrightarrow> math_log2 pf x = Inl ValueError"
  by (simp add: math_log2_def)

lemma ieee_div_one_negative:
  assumes "float_negative b"
  shows "float_sign (ieee_div pf float_one b) \<and> \<not> is_nan (ieee_div pf float_one b)"
proof -
  from assms have b: "float_sign b" "\<not> is_nan b" "\<not> is_zero b"
    by (simp_all add: float_negative_def)
  show ?thesis
  proof (cases "is_inf b")
    case True
    with b show ?thesis
      by (simp add: ieee_div_def float_one_finite float_one_class mk_float_zero)
  next
    case False
    with b show ?thesis
      by (simp add: ieee_div_def float_one_finite float_one_class round_to_float_sign
          round_to_float_not_nan)
  qed
qed

lemma finite_class: "is_finite x \<Longrightarrow> \<not> is_nan x \<and> \<not> is_inf x"
  by (simp add: is_finite_def is_nan_def is_inf_def)

lemma significand_bound: "significand x < 2 ^ 53"
proof -
  have "float_fraction x < 2 ^ 52" by (simp add: float_fraction_def)
  then show ?thesis by (simp add: significand_def)
qed

lemma significand_pos: "\<not> is_zero x \<Longrightarrow> 0 < significand x"
proof -
  assume "\<not> is_zero x"
  then have "0 < float_mag x" by (simp add: is_zero_def)
  moreover have "float_mag x = float_exponent x * 2 ^ 52 + float_fraction x"
    by (simp add: float_exponent_def float_fraction_def)
  ultimately have "float_exponent x = 0 \<Longrightarrow> 0 < float_fraction x" by simp
  then show ?thesis by (auto simp add: significand_def)
qed

lemma float_scale_bound: "is_finite x \<Longrightarrow> float_scale x \<le> 971"
proof -
  assume "is_finite x"
  then have "float_mag x < 2047 * 2 ^ 52" by (simp add: is_finite_def inf_mag_def)
  then have "float_exponent x < 2047"
    unfolding float_exponent_def by (rule less_mult_imp_div_less)
  then show ?thesis by (simp add: float_scale_def)
qed

lemma float_one_parts: "significand float_one = 2 ^ 52" "float_scale float_one = - 52"
  by (simp_all add: significand_def float_scale_def float_exponent_def float_fraction_def
      float_one_class)

lemma round_half_even_ge: "n div d \<le> round_half_even n d"
  by (simp add: round_half_even_def Let_def)

lemma round_to_float_nonzero:
  assumes "0 < d" and "0 \<le> t + 1074" and "d \<le> n * 2 ^ nat (t + 1074)"
  shows "\<not> is_zero (round_to_float s n d t)"
proof -
  define e where "e = max 1 (t + floor_log2_ratio n d + 1023)"
  define k where "k = t + 1075 - e"
  define q where "q = round_half_even (n * 2 ^ nat k) (d * 2 ^ nat (- k))"
  define m where "m = nat (e - 1) * 2 ^ 52 + q"
  have mag: "float_mag (round_to_float s n d t) = (if inf_mag \<le> m then inf_mag else m)"
    by (simp add: round_to_float_mag Let_def e_def k_def q_def m_def)
  have "0 < m"
  proof (cases "e = 1")
    case True
    then have k: "k = t + 1074" by (simp add: k_def)
    with assms(2) have "nat (- k) = 0" by simp
    with k have "q = round_half_even (n * 2 ^ nat (t + 1074)) d"
      by (simp add: q_def)
    moreover have "1 \<le> (n * 2 ^ nat (t + 1074)) div d"
      using assms(1,3) by (simp add: Suc_le_eq div_greater_zero_iff)
    ultimately have "1 \<le> q"
      using round_half_even_ge [of "n * 2 ^ nat (t + 1074)" d] by simp
    then show ?thesis by (simp add: m_def)
  next
    case False
    then have "1 < e" by (simp add: e_def)
    then have "0 < nat (e - 1)" by simp
    then show ?thesis by (simp add: m_def)
  qed
  then show ?thesis
    by (simp add: is_zero_def mag inf_mag_def)
qed

lemma reciprocal_positive:
  assumes "float_positive_finite b"
  shows "\<not> float_sign (ieee_div pf float_one b) \<and> \<not> is_nan (ieee_div pf float_one b) \<and>
         \<not> is_zero (ieee_div pf float_one b)"
proof -
  from assms have b: "\<not> float_sign b" "is_finite b" "\<not> is_zero b"
    by (simp_all add: float_positive_finite_def)
  from b(2) have fin: "\<not> is_nan b" "\<not> is_inf b" by (simp_all add: finite_class)
  have div: "ieee_div pf float_one b =
      round_to_float False (2 ^ 52) (significand b) (- 52 - float_scale b)"
    using b fin by (simp add: ieee_div_def float_one_finite float_one_class float_one_parts)
  have t: "51 \<le> - 52 - float_scale b + 1074"
    using float_scale_bound [OF b(2)] by simp
  then have "(2::nat) ^ 51 \<le> 2 ^ nat (- 52 - float_scale b + 1074)"
    by (intro power_increasing) simp_all
  then have "(2::nat) ^ 52 * 2 ^ 51 \<le> 2 ^ 52 * 2 ^ nat (- 52 - float_scale b + 1074)"
    by simp
  moreover have "significand b \<le> 2 ^ 52 * 2 ^ 51"
    using significand_bound [of b] by simp
  ultimately have "significand b \<le> 2 ^ 52 * 2 ^ nat (- 52 - float_scale b + 1074)"
    by (rule order_trans [rotated])
  with t have "\<not> is_zero (round_to_float False (2 ^ 52) (significand b) (- 52 - float_scale b))"
    by (intro round_to_float_nonzero significand_pos b) simp_all
  then show ?thesis
    by (simp add: div round_to_float_sign round_to_float_not_nan)
qed

lemmas float_eval = float_sign_def float_mag_def float_exponent_def float_fraction_def inf_mag_def
  is_nan_def is_inf_def is_finite_def is_zero_def mk_float_def significand_def float_scale_def
  bit_length.simps floor_log2_ratio_def round_half_even_def round_to_float_def Let_def
  float_one_def

lemma reciprocal_quarter: "ieee_div pf float_one 0x3FD0000000000000 = 0x4010000000000000"
  by (simp add: ieee_div_def float_eval)

lemma reciprocal_four: "ieee_div pf float_one 0x4010000000000000 = 0x3FD0000000000000"
  by (simp add: ieee_div_def float_eval)

lemma reciprocal_tiny: "ieee_div pf float_one 0x39B0000000000000 = 0x4630000000000000"
  by (simp add: ieee_div_def float_eval)

lemma reciprocal_min_subnormal: "ieee_div pf float_one 1 = pos_inf"
  by (simp add: ieee_div_def float_eval pos_inf_def)

lemma float_of_int_examples:
  "float_of_int 2 = 0x4000000000000000"
  "float_of_int (- 2) = 0xC000000000000000"
  "float_of_int 100 = 0x4059000000000000"
  by (simp_all add: float_of_int_def float_eval)

lemma float_floor_examples:
  "float_floor 0x4000000000000000 = 2"
  "float_floor 0xC000000000000000 = - 2"
  "float_floor 0x4059000000000000 = 100"
  by (simp_all add: float_floor_def float_eval)

lemma sample_log2_examples:
  "log2_d sample_platform 0x4010000000000000 = 0x4000000000000000"
  "log2_d sample_platform 0x3FD0000000000000 = 0xC000000000000000"
  "log2_d sample_platform 0x4630000000000000 = 0x4059000000000000"
  by (simp_all add: sample_platform_def float_exponent_def float_mag_def float_of_int_examples)

lemma example_classes:
  "float_positive_finite 0x3FD0000000000000"
  "float_positive_finite 0x4010000000000000"
  "float_positive_finite 0x39B0000000000000"
  "is_finite 0x3FD0000000000000"
  "is_finite 0x4010000000000000"
  "is_finite 0x4630000000000000"
  "is_finite 0x4000000000000000"
  "is_finite 0xC000000000000000"
  "is_finite 0x4059000000000000"
  "is_zero neg_zero"
  by (simp_all add: float_positive_finite_def float_sign_def is_finite_def is_zero_def
      float_mag_def inf_mag_def neg_zero_def)

lemma predictor_at_infinity:
  assumes "is_inf epsilon" and "\<not> float_sign epsilon"
  shows "empirical_stability_law pf epsilon = Inl ValueError"
proof -
  from assms(1) have e: "\<not> is_zero epsilon" "\<not> is_nan epsilon"
    by (simp_all add: is_inf_def is_zero_def is_nan_def inf_mag_def)
  with assms have "ieee_div pf float_one epsilon = mk_float False 0"
    by (simp add: ieee_div_def float_one_finite float_one_class)
  moreover have "\<not> is_inf (mk_float False 0)"
    by (simp add: is_inf_def float_mag_mk_float inf_mag_def)
  ultimately have "math_log2 pf (ieee_div pf float_one epsilon) = Inl ValueError"
    by (simp add: math_log2_def mk_float_zero)
  with e show ?thesis
    by (simp add: empirical_stability_law_def one_truediv)
qed

lemma predictor_reciprocal_overflow:
  assumes "\<not> is_zero epsilon" and "ieee_div pf float_one epsilon = pos_inf"
  shows "empirical_stability_law pf epsilon = Inl OverflowError"
proof -
  have inf: "is_inf pos_inf" "\<not> is_nan pos_inf" "\<not> float_sign pos_inf"
    by (simp_all add: is_inf_def is_nan_def float_sign_def float_mag_def inf_mag_def pos_inf_def)
  then have "math_log2 pf pos_inf = Inr pos_inf"
    by (simp add: math_log2_def)
  moreover have "math_floor pos_inf = Inl OverflowError"
    using inf by (simp add: math_floor_def)
  ultimately show ?thesis
    using assms by (simp add: empirical_stability_law_def one_truediv)
qed


text \<open>
  C7. For every strictly negative \<open>epsilon\<close> (the negative infinity included)
  \<^verbatim>\<open>empirical_stability_law(epsilon)\<close> fails: the quotient \<^verbatim>\<open>1/epsilon\<close> is negative or a
  negative zero, and \<^verbatim>\<open>math.log2\<close> raises Python's \<^verbatim>\<open>ValueError\<close> (math domain error),
  the error the specification names \<^verbatim>\<open>DomainError\<close>.
\<close>

theorem predictor_negative:
  assumes "float_negative epsilon"
  shows "empirical_stability_law pf epsilon = Inl ValueError"
proof -
  from assms have "\<not> is_zero epsilon" by (simp add: float_negative_def)
  moreover have "math_log2 pf (ieee_div pf float_one epsilon) = Inl ValueError"
    using ieee_div_one_negative [OF assms] by (simp add: math_log2_negative)
  ultimately show ?thesis
    by (simp add: empirical_stability_law_def one_truediv)
qed


text \<open>In particular at \<^verbatim>\<open>-1.0\<close>.\<close>

theorem predictor_negative_witness:
  "float_negative 0xBFF0000000000000 \<and>
   empirical_stability_law sample_platform 0xBFF0000000000000 = Inl ValueError"
proof -
  have h: "float_negative 0xBFF0000000000000"
    by (simp add: float_negative_def float_sign_def is_nan_def is_zero_def float_mag_def inf_mag_def)
  show ?thesis
    using h predictor_negative [OF h, of sample_platform] by simp
qed

text \<open>
  C6, as the code has it. \<^verbatim>\<open>empirical_stability_law(epsilon)\<close> returns 64 when
  \<open>epsilon\<close> is a zero. When \<open>epsilon\<close> is positive and finite and its reciprocal
  \<^verbatim>\<open>1/epsilon\<close> is finite in double precision, it returns \<open>64 - floor(log2(1/epsilon))\<close>,
  computed in double precision and not clamped, provided the C library's \<^verbatim>\<open>log2\<close> is
  finite there (as it is at every positive finite argument).
\<close>

theorem predictor_nonnegative:
  "(is_zero epsilon \<longrightarrow> empirical_stability_law pf epsilon = Inr 64) \<and>
   (float_positive_finite epsilon \<and> is_finite (ieee_div pf float_one epsilon) \<and>
    is_finite (log2_d pf (ieee_div pf float_one epsilon)) \<longrightarrow>
      empirical_stability_law pf epsilon =
        Inr (64 - float_floor (log2_d pf (ieee_div pf float_one epsilon))))"
proof (intro conjI impI)
  assume "is_zero epsilon"
  then show "empirical_stability_law pf epsilon = Inr 64"
    by (simp add: empirical_stability_law_def)
next
  define q where "q = ieee_div pf float_one epsilon"
  assume "float_positive_finite epsilon \<and> is_finite (ieee_div pf float_one epsilon) \<and>
    is_finite (log2_d pf (ieee_div pf float_one epsilon))"
  then have eps: "float_positive_finite epsilon" and q: "is_finite q" and l: "is_finite (log2_d pf q)"
    by (simp_all add: q_def)
  from eps have nz: "\<not> is_zero epsilon" by (simp add: float_positive_finite_def)
  have "math_log2 pf q = Inr (log2_d pf q)"
    using reciprocal_positive [OF eps, of pf] finite_class [OF q]
    by (simp add: math_log2_def q_def)
  moreover have "math_floor (log2_d pf q) = Inr (float_floor (log2_d pf q))"
    using finite_class [OF l] by (simp add: math_floor_def)
  ultimately show "empirical_stability_law pf epsilon =
      Inr (64 - float_floor (log2_d pf (ieee_div pf float_one epsilon)))"
    using nz by (simp add: empirical_stability_law_def one_truediv q_def)
qed

text \<open>
  At \<^verbatim>\<open>-0.0\<close> the result is 64, at \<^verbatim>\<open>0.25\<close> it is 62, at \<^verbatim>\<open>4.0\<close> it is 66 (above 64)
  and at \<open>2^-100\<close> it is -36 (negative).
\<close>

theorem predictor_nonnegative_witness:
  "empirical_stability_law sample_platform neg_zero = Inr 64 \<and>
   empirical_stability_law sample_platform 0x3FD0000000000000 = Inr 62 \<and>
   empirical_stability_law sample_platform 0x4010000000000000 = Inr 66 \<and>
   empirical_stability_law sample_platform 0x39B0000000000000 = Inr (- 36)"
  using predictor_nonnegative [of neg_zero sample_platform]
    predictor_nonnegative [of "0x3FD0000000000000" sample_platform]
    predictor_nonnegative [of "0x4010000000000000" sample_platform]
    predictor_nonnegative [of "0x39B0000000000000" sample_platform]
  by (simp add: example_classes reciprocal_quarter reciprocal_four reciprocal_tiny
      sample_log2_examples float_floor_examples)


text \<open>
  As the specification states it, for every \<open>epsilon \<ge> 0\<close>, C6 does not hold of the
  code: at the positive infinity the
  reciprocal is \<^verbatim>\<open>0.0\<close> and \<^verbatim>\<open>math.log2\<close> raises; at the smallest subnormal number
  (bit pattern 1, about \<open>4.9e-324\<close>) the reciprocal overflows to infinity and
  \<^verbatim>\<open>math.floor\<close> raises.
\<close>

theorem predictor_fails_at_extremes:
  "empirical_stability_law sample_platform pos_inf = Inl ValueError \<and>
   empirical_stability_law sample_platform 1 = Inl OverflowError"
proof -
  have "is_inf pos_inf" "\<not> float_sign pos_inf"
    by (simp_all add: is_inf_def float_sign_def float_mag_def inf_mag_def pos_inf_def)
  then have "empirical_stability_law sample_platform pos_inf = Inl ValueError"
    by (rule predictor_at_infinity)
  moreover have "\<not> is_zero 1"
    by (simp add: is_zero_def float_mag_def)
  then have "empirical_stability_law sample_platform 1 = Inl OverflowError"
    using reciprocal_min_subnormal by (rule predictor_reciprocal_overflow)
  ultimately show ?thesis by simp
qed

end
